theory Spec2Isabelle
  imports Main "HOL-Library.Multiset"
begin

section \<open>String primitives of the host language\<close>

text \<open>
  The generator is TypeScript. Its strings are modelled as \<open>string\<close> (a list of
  code units, here restricted to the 8-bit range), \<open>length\<close> counting code units as
  the source's \<open>.length\<close> does.
\<close>

definition slash :: char where
  "slash = CHR ''/''"

definition hash :: char where
  "hash = CHR ''#''"

definition newline :: char where
  "newline = CHR 0x0A"

text \<open>
  The characters matched by \<open>\s\<close> in a regular expression and removed by
  \<open>String.prototype.trim\<close>: tab, line feed, vertical tab, form feed, carriage
  return, space and no-break space (the members of the class below 256).
\<close>

definition is_space :: "char \<Rightarrow> bool" where
  "is_space c \<longleftrightarrow> c \<in> set [CHR 0x09, CHR 0x0A, CHR 0x0B, CHR 0x0C, CHR 0x0D, CHR 0x20, CHR 0xA0]"

text \<open>The line terminators, which \<open>.\<close> in a regular expression does not match.\<close>

definition is_line_terminator :: "char \<Rightarrow> bool" where
  "is_line_terminator c \<longleftrightarrow> c \<in> set [CHR 0x0A, CHR 0x0D]"

text \<open>
  \<open>s.split(c)\<close> for a one-character separator: the empty string gives one empty
  segment, and every occurrence of the separator starts a new segment.
\<close>

fun split_js :: "char \<Rightarrow> string \<Rightarrow> string list" where
  "split_js c [] = [[]]"
| "split_js c (x # xs) =
     (if x = c then [] # split_js c xs
      else (case split_js c xs of
              [] \<Rightarrow> [[x]]
            | p # ps \<Rightarrow> (x # p) # ps))"

text \<open>\<open>parts.join(sep)\<close>.\<close>

fun join_js :: "string \<Rightarrow> string list \<Rightarrow> string" where
  "join_js sep [] = []"
| "join_js sep [x] = x"
| "join_js sep (x # y # ys) = x @ sep @ join_js sep (y # ys)"

text \<open>\<open>s.replace(/^\/+/, '')\<close> and the two alternatives of \<open>s.replace(/^\/+|\/+$/g, '')\<close>.\<close>

definition strip_leading_slashes :: "string \<Rightarrow> string" where
  "strip_leading_slashes s = dropWhile (\<lambda>c. c = slash) s"

definition strip_trailing_slashes :: "string \<Rightarrow> string" where
  "strip_trailing_slashes s = rev (dropWhile (\<lambda>c. c = slash) (rev s))"

definition trim_slashes :: "string \<Rightarrow> string" where
  "trim_slashes s = strip_trailing_slashes (strip_leading_slashes s)"

definition endsWith :: "string \<Rightarrow> string \<Rightarrow> bool" where
  "endsWith s suf \<longleftrightarrow> length suf \<le> length s \<and> drop (length s - length suf) s = suf"

text \<open>\<open>s.replace(/\.mdx?$/, repl)\<close>: a final \<open>.mdx\<close> or \<open>.md\<close> is replaced.\<close>

definition replace_md_ext :: "string \<Rightarrow> string \<Rightarrow> string" where
  "replace_md_ext repl s =
     (if endsWith s ''.mdx'' then take (length s - 4) s @ repl
      else if endsWith s ''.md'' then take (length s - 3) s @ repl
      else s)"

text \<open>\<open>s.trim()\<close>.\<close>

definition trim_js :: "string \<Rightarrow> string" where
  "trim_js s = rev (dropWhile is_space (rev (dropWhile is_space s)))"

section \<open>Category and subdirectory of a document path\<close>

text \<open>\<open>extractCategoryFromPath\<close>.\<close>

definition extractCategoryFromPath :: "string \<Rightarrow> string" where
  "extractCategoryFromPath docPath =
     (let parts = split_js slash (trim_slashes docPath)
      in if length parts \<ge> 3 then parts ! 2
         else if length parts \<ge> 2 then parts ! 1
         else ''other'')"

text \<open>\<open>extractSubdirectoryFromPath\<close>; \<open>None\<close> is the source's \<open>null\<close>.\<close>

definition extractSubdirectoryFromPath :: "string \<Rightarrow> string \<Rightarrow> string option" where
  "extractSubdirectoryFromPath docPath docsDir =
     (let parts = split_js slash (replace_md_ext [] (trim_slashes docPath))
      in if length parts \<ge> 5 \<and> parts ! 0 = docsDir then Some (parts ! 3)
         else None)"

section \<open>Link lines of the table of contents\<close>

text \<open>
  \<open>s.replace(/^(#+)\s+/g, '')\<close>: the pattern is anchored at the start of the string, so
  it matches at most once: a non-empty run of \<open>#\<close> followed by a non-empty run of white
  space. Both runs are removed; a string that does not start this way is unchanged.
\<close>

definition remove_heading_marker :: "string \<Rightarrow> string" where
  "remove_heading_marker s =
     (let rest = dropWhile (\<lambda>c. c = hash) s
      in if takeWhile (\<lambda>c. c = hash) s \<noteq> [] \<and> takeWhile is_space rest \<noteq> []
         then dropWhile is_space rest
         else s)"

text \<open>
  \<open>cleanDescriptionForToc\<close>. \<open>split\<close> never returns an empty array, so element 0
  exists.
\<close>

definition cleanDescriptionForToc :: "string \<Rightarrow> string" where
  "cleanDescriptionForToc description =
     (if description = [] then []
      else
        let firstLine = hd (split_js newline description);
            cleaned = remove_heading_marker firstLine
        in if length cleaned > 150 then take 147 cleaned @ ''...'' else cleaned)"

section \<open>Documents and their order\<close>

text \<open>
  The recognised front matter keys. Each may be absent; \<open>id\<close> is a constant of HOL, so
  the key \<open>id\<close> is the field \<open>id_key\<close>.
\<close>

record FrontMatter =
  sidebar_position :: "int option"
  slug :: "string option"
  id_key :: "string option"

text \<open>\<open>DocInfo\<close>. The source reads \<open>doc.frontMatter?.key\<close>: the front matter itself may be missing.\<close>

record DocInfo =
  title :: string
  path :: string
  url :: string
  content :: string
  description :: string
  frontMatter :: "FrontMatter option"

text \<open>
  \<open>Array.prototype.sort\<close> with a comparator \<open>cmp\<close>: \<open>cmp a b < 0\<close> puts \<open>a\<close> first,
  \<open>cmp a b > 0\<close> puts \<open>b\<close> first, and the sort is stable. For a consistent comparator this
  fixes the result, which a stable insertion sort computes.
\<close>

fun insert_by :: "('a \<Rightarrow> 'a \<Rightarrow> int) \<Rightarrow> 'a \<Rightarrow> 'a list \<Rightarrow> 'a list" where
  "insert_by cmp x [] = [x]"
| "insert_by cmp x (y # ys) = (if cmp x y \<le> 0 then x # y # ys else y # insert_by cmp x ys)"

definition sort_js :: "('a \<Rightarrow> 'a \<Rightarrow> int) \<Rightarrow> 'a list \<Rightarrow> 'a list" where
  "sort_js cmp xs = foldr (insert_by cmp) xs []"

text \<open>
  What the language requires of a comparator for the order of the result to be defined:
  the signs of \<open>cmp a b\<close> and \<open>cmp b a\<close> are opposite, and \<open>\<le>\<close> is transitive.
\<close>

definition consistent_compare :: "('a \<Rightarrow> 'a \<Rightarrow> int) \<Rightarrow> bool" where
  "consistent_compare cmp \<longleftrightarrow>
     (\<forall>a b. (cmp a b < 0) = (0 < cmp b a)) \<and>
     (\<forall>a b c. cmp a b \<le> 0 \<and> cmp b c \<le> 0 \<longrightarrow> cmp a c \<le> 0)"

text \<open>The same, for the elements of a set only.\<close>

definition consistent_compare_on :: "'a set \<Rightarrow> ('a \<Rightarrow> 'a \<Rightarrow> int) \<Rightarrow> bool" where
  "consistent_compare_on A cmp \<longleftrightarrow>
     (\<forall>a \<in> A. \<forall>b \<in> A. (cmp a b < 0) = (0 < cmp b a)) \<and>
     (\<forall>a \<in> A. \<forall>b \<in> A. \<forall>c \<in> A. cmp a b \<le> 0 \<and> cmp b c \<le> 0 \<longrightarrow> cmp a c \<le> 0)"

text \<open>\<open>doc.frontMatter?.sidebar_position ?? 999\<close>.\<close>

definition effective_position :: "DocInfo \<Rightarrow> int" where
  "effective_position doc =
     (case frontMatter doc of
        None \<Rightarrow> 999
      | Some fm \<Rightarrow> (case sidebar_position fm of None \<Rightarrow> 999 | Some p \<Rightarrow> p))"

text \<open>
  The comparator of \<open>sortDocsByPosition\<close>. \<open>localeCompare\<close> is the host's collation of
  two strings, a parameter here.
\<close>

definition compare_docs :: "(string \<Rightarrow> string \<Rightarrow> int) \<Rightarrow> DocInfo \<Rightarrow> DocInfo \<Rightarrow> int" where
  "compare_docs localeCompare a b =
     (let posA = effective_position a;
          posB = effective_position b
      in if posA \<noteq> posB then posA - posB
         else localeCompare (path a) (path b))"

definition sortDocsByPosition :: "(string \<Rightarrow> string \<Rightarrow> int) \<Rightarrow> DocInfo list \<Rightarrow> DocInfo list" where
  "sortDocsByPosition localeCompare docs = sort_js (compare_docs localeCompare) docs"

text \<open>A collation to run the model on: code unit by code unit, a proper prefix first.\<close>

fun compare_units :: "nat list \<Rightarrow> nat list \<Rightarrow> int" where
  "compare_units [] [] = 0"
| "compare_units [] (y # ys) = - 1"
| "compare_units (x # xs) [] = 1"
| "compare_units (x # xs) (y # ys) =
     (if x < y then - 1 else if y < x then 1 else compare_units xs ys)"

definition codeunit_compare :: "string \<Rightarrow> string \<Rightarrow> int" where
  "codeunit_compare a b = compare_units (map of_char a) (map of_char b)"

text \<open>A document with the given title, path and \<open>sidebar_position\<close>, for running the model.\<close>

definition example_doc :: "string \<Rightarrow> string \<Rightarrow> int option \<Rightarrow> DocInfo" where
  "example_doc t p pos =
     \<lparr>title = t, path = p, url = ''https://example.com/'' @ p, content = [], description = [],
      frontMatter = Some \<lparr>sidebar_position = pos, slug = None, id_key = None\<rparr>\<rparr>"

section \<open>The host and the category descriptors\<close>

text \<open>Exceptions the host's functions throw.\<close>

datatype js_error = ReadError | SyntaxError | TypeError

text \<open>
  What \<open>JSON.parse\<close> gives for the text of a \<open>_category_.json\<close>, as far as the reader
  looks at it: \<open>null\<close>, on which a property access throws, or a value with its
  \<open>position\<close> (a number, as the interface \<open>CategoryMetadata\<close> declares it) and its
  \<open>label\<close> (a string), each present or not.
\<close>

datatype category_json =
  JsonNull
| JsonValue (json_position: "int option") (json_label: "string option")

text \<open>
  The functions of the runtime that the generator calls: \<open>path.join\<close>,
  \<open>fs.readFile\<close>, \<open>JSON.parse\<close>, \<open>String.prototype.localeCompare\<close> and
  \<open>String.prototype.toUpperCase\<close>. A thrown exception is the left summand.
\<close>

record Host =
  path_join :: "string \<Rightarrow> string \<Rightarrow> string"
  readFile :: "string \<Rightarrow> js_error + string"
  JSON_parse :: "string \<Rightarrow> js_error + category_json"
  localeCompare :: "string \<Rightarrow> string \<Rightarrow> int"
  toUpperCase :: "string \<Rightarrow> string"

record CategoryMetadata =
  position :: int
  label :: "string option"

definition default_metadata :: CategoryMetadata where
  "default_metadata = \<lparr>position = 999, label = None\<rparr>"

text \<open>The body of the \<open>try\<close> block of \<open>readCategoryMetadata\<close>.\<close>

definition readCategoryMetadata_try :: "Host \<Rightarrow> string \<Rightarrow> js_error + CategoryMetadata" where
  "readCategoryMetadata_try h categoryPath =
     (let categoryJsonPath = path_join h categoryPath ''_category_.json''
      in case readFile h categoryJsonPath of
           Inl e \<Rightarrow> Inl e
         | Inr text \<Rightarrow>
             (case JSON_parse h text of
                Inl e \<Rightarrow> Inl e
              | Inr JsonNull \<Rightarrow> Inl TypeError
              | Inr (JsonValue p l) \<Rightarrow>
                  Inr \<lparr>position = (case p of None \<Rightarrow> 999 | Some n \<Rightarrow> n),
                       label = (case l of None \<Rightarrow> None
                                | Some s \<Rightarrow> if s = [] then None else Some s)\<rparr>))"

text \<open>\<open>readCategoryMetadata\<close>: the \<open>catch\<close> turns every exception into \<open>null\<close>.\<close>

definition readCategoryMetadata :: "Host \<Rightarrow> string \<Rightarrow> CategoryMetadata option" where
  "readCategoryMetadata h categoryPath =
     (case readCategoryMetadata_try h categoryPath of
        Inl e \<Rightarrow> None
      | Inr metadata \<Rightarrow> Some metadata)"

text \<open>\<open>getCategoryMetadata\<close>.\<close>

definition getCategoryMetadata :: "Host \<Rightarrow> string \<Rightarrow> string \<Rightarrow> string \<Rightarrow> CategoryMetadata" where
  "getCategoryMetadata h docPath siteDir docsDir =
     (let cleanPath = replace_md_ext [] (trim_slashes docPath);
          pathParts = split_js slash cleanPath
      in if length pathParts \<ge> 3 \<and> pathParts ! 0 = docsDir then
           (case readCategoryMetadata h (path_join h siteDir (join_js ''/'' (take 3 pathParts))) of
              None \<Rightarrow> default_metadata
            | Some metadata \<Rightarrow> metadata)
         else if length pathParts \<ge> 2 \<and> pathParts ! 0 = docsDir then
           (case readCategoryMetadata h (path_join h siteDir (join_js ''/'' (take 2 pathParts))) of
              None \<Rightarrow> default_metadata
            | Some metadata \<Rightarrow> metadata)
         else default_metadata)"

section \<open>The links file\<close>

text \<open>An optional string argument counts as given when it is present and not empty.\<close>

definition truthy :: "string option \<Rightarrow> bool" where
  "truthy s = (case s of None \<Rightarrow> False | Some v \<Rightarrow> v \<noteq> [])"

text \<open>
  A \<open>Map\<close> from keys to arrays keeps its keys in insertion order: an association list.
  \<open>map_push\<close> is \<open>if (!m.has(k)) m.set(k, []); m.get(k).push(v)\<close>.
\<close>

definition map_push :: "'k \<Rightarrow> 'v \<Rightarrow> ('k \<times> 'v list) list \<Rightarrow> ('k \<times> 'v list) list" where
  "map_push k v m =
     (let m' = (if map_of m k = None then m @ [(k, [])] else m)
      in map (\<lambda>(k', vs). if k' = k then (k', vs @ [v]) else (k', vs)) m')"

text \<open>\<open>m.get(k)\<close> of such a map, the empty array when the key is missing.\<close>

definition map_get :: "('k \<times> 'v list) list \<Rightarrow> 'k \<Rightarrow> 'v list" where
  "map_get m k = (case map_of m k of None \<Rightarrow> [] | Some vs \<Rightarrow> vs)"

definition docsByCategory :: "DocInfo list \<Rightarrow> (string \<times> DocInfo list) list" where
  "docsByCategory docs =
     foldl (\<lambda>m doc. map_push (extractCategoryFromPath (path doc)) doc m) [] docs"

text \<open>
  \<open>categoryMetadataMap\<close>: filled only when both \<open>siteDir\<close> and \<open>docsDir\<close> are given,
  from the path of the first document of each category.
\<close>

definition categoryMetadataMap ::
  "Host \<Rightarrow> string option \<Rightarrow> string option \<Rightarrow> (string \<times> DocInfo list) list \<Rightarrow>
   (string \<rightharpoonup> CategoryMetadata)" where
  "categoryMetadataMap h siteDir docsDir groups =
     (case (siteDir, docsDir) of
        (Some sd, Some dd) \<Rightarrow>
          if sd \<noteq> [] \<and> dd \<noteq> [] then
            map_of (map (\<lambda>(category, ds).
              (category, getCategoryMetadata h (path (hd ds)) sd dd)) groups)
          else Map.empty
      | _ \<Rightarrow> Map.empty)"

text \<open>
  The comparator of the categories, and of the subdirectories: by position when both
  keys have metadata and the positions differ, else by \<open>localeCompare\<close>.
\<close>

definition compare_by_metadata ::
  "Host \<Rightarrow> (string \<rightharpoonup> CategoryMetadata) \<Rightarrow> string \<Rightarrow> string \<Rightarrow> int" where
  "compare_by_metadata h m a b =
     (case (m a, m b) of
        (Some metaA, Some metaB) \<Rightarrow>
          if position metaA \<noteq> position metaB then position metaA - position metaB
          else localeCompare h a b
      | _ \<Rightarrow> localeCompare h a b)"

definition sortedCategories ::
  "Host \<Rightarrow> (string \<rightharpoonup> CategoryMetadata) \<Rightarrow> (string \<times> DocInfo list) list \<Rightarrow> string list" where
  "sortedCategories h m groups = sort_js (compare_by_metadata h m) (map fst groups)"

text \<open>\<open>formatCategoryName\<close>.\<close>

definition formatCategoryName :: "Host \<Rightarrow> string \<Rightarrow> string" where
  "formatCategoryName h category =
     join_js '' '' (map (\<lambda>word. toUpperCase h (take 1 word) @ drop 1 word)
                     (split_js (CHR ''-'') category))"

text \<open>\<open>metadata?.label || formatCategoryName(key)\<close>.\<close>

definition display_title :: "Host \<Rightarrow> CategoryMetadata option \<Rightarrow> string \<Rightarrow> string" where
  "display_title h metadata key =
     (case metadata of
        None \<Rightarrow> formatCategoryName h key
      | Some m \<Rightarrow>
          (case label m of
             None \<Rightarrow> formatCategoryName h key
           | Some l \<Rightarrow> if l \<noteq> [] then l else formatCategoryName h key))"

text \<open>\<open>generateLinkItem\<close>.\<close>

definition generateLinkItem :: "DocInfo \<Rightarrow> bool \<Rightarrow> string" where
  "generateLinkItem doc includeDescription =
     (if includeDescription then
        (let cleanedDescription = cleanDescriptionForToc (description doc)
         in ''- ['' @ title doc @ '']('' @ url doc @ '')'' @
            (if cleanedDescription \<noteq> [] then '': '' @ cleanedDescription else []))
      else ''- ['' @ title doc @ '']('' @ url doc @ '')'')"

text \<open>The subdirectory key of a document: \<open>null\<close> when no \<open>docsDir\<close> is given.\<close>

definition subdir_of :: "string option \<Rightarrow> DocInfo \<Rightarrow> string option" where
  "subdir_of docsDir doc =
     (case docsDir of
        None \<Rightarrow> None
      | Some dd \<Rightarrow> if dd \<noteq> [] then extractSubdirectoryFromPath (path doc) dd else None)"

definition docsBySubdir :: "string option \<Rightarrow> DocInfo list \<Rightarrow> (string option \<times> DocInfo list) list" where
  "docsBySubdir docsDir categoryDocs =
     foldl (\<lambda>m doc. map_push (subdir_of docsDir doc) doc m) [] categoryDocs"

text \<open>\<open>subdirPathMap\<close>: the directory of each subdirectory, taken from its first document.\<close>

definition subdirPath_step ::
  "Host \<Rightarrow> string option \<Rightarrow> string option \<Rightarrow> (string \<times> string) list \<Rightarrow> DocInfo \<Rightarrow>
   (string \<times> string) list" where
  "subdirPath_step h siteDir docsDir m doc =
     (case (subdir_of docsDir doc, siteDir, docsDir) of
        (Some subdir, Some sd, Some dd) \<Rightarrow>
          if subdir \<noteq> [] \<and> sd \<noteq> [] \<and> dd \<noteq> [] \<and> map_of m subdir = None then
            (let pathParts = split_js slash (replace_md_ext [] (trim_slashes (path doc)))
             in if length pathParts \<ge> 5 \<and> pathParts ! 0 = dd
                then m @ [(subdir, path_join h sd (join_js ''/'' (take 4 pathParts)))]
                else m)
          else m
      | _ \<Rightarrow> m)"

definition subdirPathMap ::
  "Host \<Rightarrow> string option \<Rightarrow> string option \<Rightarrow> DocInfo list \<Rightarrow> (string \<times> string) list" where
  "subdirPathMap h siteDir docsDir categoryDocs =
     foldl (subdirPath_step h siteDir docsDir) [] categoryDocs"

text \<open>\<open>subdirMetadataMap\<close>: only the subdirectories whose descriptor could be read.\<close>

definition subdirMetadataMap ::
  "Host \<Rightarrow> string option \<Rightarrow> string option \<Rightarrow> (string \<times> string) list \<Rightarrow>
   (string \<rightharpoonup> CategoryMetadata)" where
  "subdirMetadataMap h siteDir docsDir paths =
     (if truthy siteDir \<and> truthy docsDir \<and> paths \<noteq> [] then
        map_of (concat (map (\<lambda>(subdirName, subdirPath).
          (case readCategoryMetadata h subdirPath of
             None \<Rightarrow> []
           | Some metadata \<Rightarrow> [(subdirName, metadata)])) paths))
      else Map.empty)"

text \<open>The keys of \<open>docsBySubdir\<close> other than \<open>null\<close>.\<close>

definition named_subdirs :: "(string option \<times> DocInfo list) list \<Rightarrow> string list" where
  "named_subdirs m = concat (map (\<lambda>(k, ds). case k of None \<Rightarrow> [] | Some s \<Rightarrow> [s]) m)"

text \<open>The array \<open>sections\<close> of one category: the root list, then one section for each subdirectory.\<close>

definition category_sections ::
  "Host \<Rightarrow> string option \<Rightarrow> string option \<Rightarrow> bool \<Rightarrow> DocInfo list \<Rightarrow> string list" where
  "category_sections h siteDir docsDir includeDescriptionInLinks categoryDocs =
     (let bySubdir = docsBySubdir docsDir categoryDocs;
          subdirMetadata = subdirMetadataMap h siteDir docsDir
                             (subdirPathMap h siteDir docsDir categoryDocs);
          rootDocs = map_get bySubdir None;
          rootSection =
            (if length rootDocs > 0 then
               [join_js [newline]
                  (map (\<lambda>doc. generateLinkItem doc includeDescriptionInLinks)
                     (sortDocsByPosition (localeCompare h) rootDocs))]
             else []);
          subdirs = sort_js (compare_by_metadata h subdirMetadata) (named_subdirs bySubdir)
      in rootSection @
         map (\<lambda>subdir.
           ''### '' @ display_title h (subdirMetadata subdir) subdir @ [newline, newline] @
           join_js [newline]
             (map (\<lambda>doc. generateLinkItem doc includeDescriptionInLinks)
                (sortDocsByPosition (localeCompare h) (map_get bySubdir (Some subdir)))))
           subdirs)"

definition category_section ::
  "Host \<Rightarrow> string option \<Rightarrow> string option \<Rightarrow> bool \<Rightarrow> (string \<rightharpoonup> CategoryMetadata) \<Rightarrow>
   string \<Rightarrow> DocInfo list \<Rightarrow> string" where
  "category_section h siteDir docsDir includeDescriptionInLinks categoryMetadata category categoryDocs =
     ''## '' @ display_title h (categoryMetadata category) category @ [newline, newline] @
     join_js [newline, newline]
       (category_sections h siteDir docsDir includeDescriptionInLinks categoryDocs)"

text \<open>The category sections of the links file, in their order.\<close>

definition categorySections ::
  "Host \<Rightarrow> DocInfo list \<Rightarrow> string option \<Rightarrow> string option \<Rightarrow> bool \<Rightarrow> string list" where
  "categorySections h docs siteDir docsDir includeDescriptionInLinks =
     (let groups = docsByCategory docs;
          categoryMetadata = categoryMetadataMap h siteDir docsDir groups
      in map (\<lambda>category.
           category_section h siteDir docsDir includeDescriptionInLinks categoryMetadata
             category (map_get groups category))
           (sortedCategories h categoryMetadata groups))"

text \<open>
  The links branch of \<open>generateLLMFile\<close>: the text handed to \<open>createMarkdownContent\<close> as
  the content of the file.
\<close>

definition generateLLMFile_links ::
  "Host \<Rightarrow> DocInfo list \<Rightarrow> string option \<Rightarrow> string option \<Rightarrow> string option \<Rightarrow> bool \<Rightarrow> string" where
  "generateLLMFile_links h docs customRootContent siteDir docsDir includeDescriptionInLinks =
     (let rootContent =
            (case customRootContent of
               None \<Rightarrow> ''This file contains links to documentation sections following the llmstxt.org standard.''
             | Some c \<Rightarrow>
                 if c \<noteq> [] then c
                 else ''This file contains links to documentation sections following the llmstxt.org standard.'')
      in rootContent @ [newline, newline] @
         join_js [newline, newline]
           (categorySections h docs siteDir docsDir includeDescriptionInLinks))"

text \<open>
  A host to run the model on: under \<open>/site\<close> two descriptor files that parse and one
  that does not; ASCII upper case.
\<close>

definition example_host :: Host where
  "example_host =
     \<lparr>path_join = (\<lambda>a b. a @ ''/'' @ b),
      readFile = (\<lambda>p. if p = ''/site/docs/a/cat1/_category_.json'' then Inr ''position 1''
                       else if p = ''/site/docs/a/cat2/_category_.json'' then Inr ''position 0''
                       else if p = ''/site/docs/a/cat3/_category_.json'' then Inr ''position''
                       else Inl ReadError),
      JSON_parse = (\<lambda>t. if t = ''position 1'' then Inr (JsonValue (Some 1) None)
                         else if t = ''position 0'' then Inr (JsonValue (Some 0) None)
                         else Inl SyntaxError),
      localeCompare = codeunit_compare,
      toUpperCase = map (\<lambda>c. if 97 \<le> (of_char c :: nat) \<and> (of_char c :: nat) \<le> 122
                               then char_of ((of_char c :: nat) - 32) else c)\<rparr>"

text \<open>The same host with no readable file at all.\<close>

definition offline_host :: Host where
  "offline_host = example_host\<lparr>readFile := (\<lambda>p. Inl ReadError)\<rparr>"

section \<open>Properties\<close>

lemma split_js_nonempty: "split_js c s \<noteq> []"
  by (induction s) (auto split: list.splits)

lemma split_js_no_sep: "s \<in> set (split_js c xs) \<Longrightarrow> c \<notin> set s"
proof (induction xs arbitrary: s)
  case Nil
  then show ?case by simp
next
  case (Cons x xs)
  show ?case
  proof (cases "x = c")
    case True
    with Cons show ?thesis by auto
  next
    case False
    obtain p ps where ps: "split_js c xs = p # ps"
      using split_js_nonempty [of c xs] by (cases "split_js c xs") auto
    with Cons False show ?thesis by auto
  qed
qed

lemma join_js_Cons: "ps \<noteq> [] \<Longrightarrow> join_js sep (p # ps) = p @ sep @ join_js sep ps"
  by (cases ps) auto

lemma join_split_js: "join_js [c] (split_js c s) = s"
proof (induction s)
  case Nil
  then show ?case by simp
next
  case (Cons x xs)
  obtain p ps where ps: "split_js c xs = p # ps"
    using split_js_nonempty [of c xs] by (cases "split_js c xs") auto
  show ?case
  proof (cases "x = c")
    case True
    then show ?thesis using Cons by (simp add: join_js_Cons split_js_nonempty)
  next
    case False
    then show ?thesis using Cons ps by (cases ps) auto
  qed
qed

lemma rev_dropWhile_decomp:
  "xs = rev (dropWhile P (rev xs)) @ rev (takeWhile P (rev xs))"
  by (metis rev_append rev_rev_ident takeWhile_dropWhile_id)

lemma trim_slashes_decomp:
  "\<exists>a b. p = a @ trim_slashes p @ b \<and> set a \<subseteq> {slash} \<and> set b \<subseteq> {slash}"
proof -
  let ?P = "\<lambda>c. c = slash"
  let ?q = "dropWhile ?P p"
  have 1: "p = takeWhile ?P p @ ?q" by simp
  have 2: "?q = trim_slashes p @ rev (takeWhile ?P (rev ?q))"
    unfolding trim_slashes_def strip_leading_slashes_def strip_trailing_slashes_def
    by (rule rev_dropWhile_decomp)
  have 3: "set (takeWhile ?P p) \<subseteq> {slash}"
    by (auto dest: set_takeWhileD)
  have 4: "set (rev (takeWhile ?P (rev ?q))) \<subseteq> {slash}"
    by (auto dest: set_takeWhileD)
  from 1 2 have "p = takeWhile ?P p @ trim_slashes p @ rev (takeWhile ?P (rev ?q))"
    by metis
  with 3 4 show ?thesis by blast
qed

lemma trim_slashes_ends:
  assumes "trim_slashes p \<noteq> []"
  shows "hd (trim_slashes p) \<noteq> slash \<and> last (trim_slashes p) \<noteq> slash"
proof -
  let ?P = "\<lambda>c. c = slash"
  let ?q = "dropWhile ?P p"
  let ?r = "dropWhile ?P (rev ?q)"
  have t: "trim_slashes p = rev ?r"
    by (simp add: trim_slashes_def strip_leading_slashes_def strip_trailing_slashes_def)
  with assms have r: "?r \<noteq> []" by simp
  then have "\<not> ?P (hd ?r)" by (rule hd_dropWhile)
  then have l: "last (trim_slashes p) \<noteq> slash"
    using r t by (simp add: last_rev)
  have q: "?q = rev ?r @ rev (takeWhile ?P (rev ?q))"
    by (rule rev_dropWhile_decomp)
  from r have "rev ?r \<noteq> []" by simp
  with q have "hd ?q = hd (rev ?r)" by (metis hd_append2)
  moreover have "?q \<noteq> []" using q r by (metis append_is_Nil_conv rev_is_Nil_conv)
  then have "\<not> ?P (hd ?q)" by (rule hd_dropWhile)
  ultimately show ?thesis using l t by simp
qed

lemma endsWith_iff: "endsWith s suf \<longleftrightarrow> (\<exists>u. s = u @ suf)"
proof
  assume "endsWith s suf"
  then have "s = take (length s - length suf) s @ suf"
    by (metis append_take_drop_id endsWith_def)
  then show "\<exists>u. s = u @ suf" ..
next
  assume "\<exists>u. s = u @ suf"
  then show "endsWith s suf" by (auto simp: endsWith_def)
qed

lemma replace_md_ext_cases:
  "s = replace_md_ext [] s @ ''.mdx'' \<or> s = replace_md_ext [] s @ ''.md'' \<or>
   (replace_md_ext [] s = s \<and> \<not> (\<exists>u. s = u @ ''.mdx'') \<and> \<not> (\<exists>u. s = u @ ''.md''))"
proof (cases "endsWith s ''.mdx''")
  case True
  then obtain u where "s = u @ ''.mdx''" by (auto simp: endsWith_iff)
  with True show ?thesis by (simp add: replace_md_ext_def)
next
  case a: False
  show ?thesis
  proof (cases "endsWith s ''.md''")
    case True
    then obtain u where "s = u @ ''.md''" by (auto simp: endsWith_iff)
    with a True show ?thesis by (simp add: replace_md_ext_def)
  next
    case False
    with a show ?thesis by (simp add: replace_md_ext_def endsWith_iff)
  qed
qed

text \<open>
  Claim C3. For every document path, category extraction removes the leading and the
  trailing slashes (the path is a run of slashes, the trimmed path, a run of slashes, and
  the trimmed path neither starts nor ends with a slash), splits the rest on \<open>/\<close>
  (the segments contain no slash and joined by \<open>/\<close> give the trimmed path back), and
  returns segment 2 when there are at least three segments, segment 1 when there are
  exactly two, and the literal \<open>other\<close> otherwise.
\<close>

theorem extractCategoryFromPath_segments:
  "(\<exists>a b. docPath = a @ trim_slashes docPath @ b \<and> set a \<subseteq> {slash} \<and> set b \<subseteq> {slash}) \<and>
   (trim_slashes docPath = [] \<or>
      hd (trim_slashes docPath) \<noteq> slash \<and> last (trim_slashes docPath) \<noteq> slash) \<and>
   join_js [slash] (split_js slash (trim_slashes docPath)) = trim_slashes docPath \<and>
   (\<forall>s \<in> set (split_js slash (trim_slashes docPath)). slash \<notin> set s) \<and>
   (3 \<le> length (split_js slash (trim_slashes docPath)) \<longrightarrow>
      extractCategoryFromPath docPath = split_js slash (trim_slashes docPath) ! 2) \<and>
   (length (split_js slash (trim_slashes docPath)) = 2 \<longrightarrow>
      extractCategoryFromPath docPath = split_js slash (trim_slashes docPath) ! 1) \<and>
   (length (split_js slash (trim_slashes docPath)) < 2 \<longrightarrow>
      extractCategoryFromPath docPath = ''other'')"
  using trim_slashes_decomp [of docPath] trim_slashes_ends [of docPath]
  by (auto simp: join_split_js extractCategoryFromPath_def Let_def dest: split_js_no_sep)

theorem extractCategoryFromPath_segments_witness:
  "(3 \<le> length (split_js slash (trim_slashes ''/docs/guides/getting-started/introduction'')) \<and>
      extractCategoryFromPath ''/docs/guides/getting-started/introduction'' = ''getting-started'') \<and>
   (length (split_js slash (trim_slashes ''docs/platform'')) = 2 \<and>
      extractCategoryFromPath ''docs/platform'' = ''platform'') \<and>
   (length (split_js slash (trim_slashes ''readme'')) < 2 \<and>
      extractCategoryFromPath ''readme'' = ''other'')"
  using extractCategoryFromPath_segments [of "''/docs/guides/getting-started/introduction''"]
    extractCategoryFromPath_segments [of "''docs/platform''"]
    extractCategoryFromPath_segments [of "''readme''"]
  by (simp add: trim_slashes_def strip_leading_slashes_def strip_trailing_slashes_def slash_def)

text \<open>
  Claim C4, as stated, fails on its second example: \<open>docs/pc/cpp-sdk\<close> has three
  segments, so the category is segment 2, \<open>cpp-sdk\<close>, not \<open>pc\<close>.
\<close>

theorem extractCategoryFromPath_cpp_sdk_counterexample:
  "extractCategoryFromPath ''docs/pc/cpp-sdk'' \<noteq> ''pc''"
  by (simp add: extractCategoryFromPath_def trim_slashes_def strip_leading_slashes_def
      strip_trailing_slashes_def slash_def)

text \<open>
  Claim C4, amended. Category extraction returns \<open>access\<close> for
  \<open>/docs/sdk/access/x\<close>, \<open>cpp-sdk\<close> for \<open>docs/pc/cpp-sdk\<close>, and \<open>other\<close> for
  \<open>other\<close>.
\<close>

theorem extractCategoryFromPath_examples:
  "extractCategoryFromPath ''/docs/sdk/access/x'' = ''access'' \<and>
   extractCategoryFromPath ''docs/pc/cpp-sdk'' = ''cpp-sdk'' \<and>
   extractCategoryFromPath ''other'' = ''other''"
  by (simp add: extractCategoryFromPath_def trim_slashes_def strip_leading_slashes_def
      strip_trailing_slashes_def slash_def)

text \<open>
  Claim C5. For every document path and root-container name, subdirectory extraction
  removes the leading and trailing slashes, then a final \<open>.mdx\<close> or \<open>.md\<close>, splits
  the rest on \<open>/\<close>, and returns segment 3 exactly when there are at least five segments
  and segment 0 is the root-container name, and null otherwise. It returns
  \<open>release-notes\<close> for \<open>/docs/sdk/start/release-notes/unity\<close> and null for
  \<open>/docs/sdk/start/agreement\<close>, both with root \<open>docs\<close>.
\<close>

theorem extractSubdirectoryFromPath_segments:
  "(\<exists>a b. docPath = a @ trim_slashes docPath @ b \<and> set a \<subseteq> {slash} \<and> set b \<subseteq> {slash}) \<and>
   (trim_slashes docPath = [] \<or>
      hd (trim_slashes docPath) \<noteq> slash \<and> last (trim_slashes docPath) \<noteq> slash) \<and>
   (trim_slashes docPath = replace_md_ext [] (trim_slashes docPath) @ ''.mdx'' \<or>
    trim_slashes docPath = replace_md_ext [] (trim_slashes docPath) @ ''.md'' \<or>
    replace_md_ext [] (trim_slashes docPath) = trim_slashes docPath \<and>
      \<not> (\<exists>u. trim_slashes docPath = u @ ''.mdx'') \<and> \<not> (\<exists>u. trim_slashes docPath = u @ ''.md'')) \<and>
   join_js [slash] (split_js slash (replace_md_ext [] (trim_slashes docPath)))
     = replace_md_ext [] (trim_slashes docPath) \<and>
   (\<forall>s \<in> set (split_js slash (replace_md_ext [] (trim_slashes docPath))). slash \<notin> set s) \<and>
   extractSubdirectoryFromPath docPath docsDir =
     (if 5 \<le> length (split_js slash (replace_md_ext [] (trim_slashes docPath))) \<and>
         split_js slash (replace_md_ext [] (trim_slashes docPath)) ! 0 = docsDir
      then Some (split_js slash (replace_md_ext [] (trim_slashes docPath)) ! 3)
      else None) \<and>
   extractSubdirectoryFromPath ''/docs/sdk/start/release-notes/unity'' ''docs'' = Some ''release-notes'' \<and>
   extractSubdirectoryFromPath ''/docs/sdk/start/agreement'' ''docs'' = None"
proof -
  have ex1: "extractSubdirectoryFromPath ''/docs/sdk/start/release-notes/unity'' ''docs'' = Some ''release-notes''"
    by (simp add: extractSubdirectoryFromPath_def trim_slashes_def strip_leading_slashes_def
      strip_trailing_slashes_def slash_def replace_md_ext_def endsWith_def)
  have ex2: "extractSubdirectoryFromPath ''/docs/sdk/start/agreement'' ''docs'' = None"
    by (simp add: extractSubdirectoryFromPath_def trim_slashes_def strip_leading_slashes_def
      strip_trailing_slashes_def slash_def replace_md_ext_def endsWith_def)
  have gen: "extractSubdirectoryFromPath docPath docsDir =
     (if 5 \<le> length (split_js slash (replace_md_ext [] (trim_slashes docPath))) \<and>
         split_js slash (replace_md_ext [] (trim_slashes docPath)) ! 0 = docsDir
      then Some (split_js slash (replace_md_ext [] (trim_slashes docPath)) ! 3)
      else None)"
    by (simp add: extractSubdirectoryFromPath_def Let_def)
  show ?thesis
    using trim_slashes_decomp [of docPath] trim_slashes_ends [of docPath]
      replace_md_ext_cases [of "trim_slashes docPath"] ex1 ex2 gen
      split_js_no_sep [of _ slash "replace_md_ext [] (trim_slashes docPath)"]
    by (simp only: join_split_js) blast
qed

theorem extractSubdirectoryFromPath_segments_witness:
  "extractSubdirectoryFromPath ''/docs/guides/getting-started/changelog/v1.mdx'' ''docs'' = Some ''changelog'' \<and>
   extractSubdirectoryFromPath ''/docs/guides/getting-started/changelog/v1.mdx'' ''documentation'' = None \<and>
   extractSubdirectoryFromPath ''/docs/guides/getting-started/license.mdx'' ''docs'' = None"
  using extractSubdirectoryFromPath_segments [of "''/docs/guides/getting-started/changelog/v1.mdx''" "''docs''"]
   extractSubdirectoryFromPath_segments [of "''/docs/guides/getting-started/changelog/v1.mdx''" "''documentation''"]
   extractSubdirectoryFromPath_segments [of "''/docs/guides/getting-started/license.mdx''" "''docs''"]
  by (simp add: trim_slashes_def strip_leading_slashes_def
      strip_trailing_slashes_def slash_def replace_md_ext_def endsWith_def)

lemma hd_split_js: "hd (split_js c s) = takeWhile (\<lambda>x. x \<noteq> c) s"
  by (induction s) (auto split: list.splits simp: split_js_nonempty)

lemma is_space_not_hash: "is_space c \<Longrightarrow> c \<noteq> hash"
  by (auto simp: is_space_def hash_def)

lemma remove_heading_marker_match:
  assumes line: "line = replicate (Suc n) hash @ ws @ rest"
    and ws: "ws \<noteq> []" "\<forall>c \<in> set ws. is_space c"
    and rest: "rest = [] \<or> \<not> is_space (hd rest)"
  shows "remove_heading_marker line = rest"
proof -
  obtain w ws' where w: "ws = w # ws'" using ws(1) by (cases ws) auto
  with ws(2) have "w \<noteq> hash" by (simp add: is_space_not_hash)
  then have t: "takeWhile (\<lambda>c. c = hash) line = replicate (Suc n) hash"
    and d: "dropWhile (\<lambda>c. c = hash) line = ws @ rest"
    unfolding line w by (simp_all add: takeWhile_append dropWhile_append)
  have tw: "takeWhile is_space (ws @ rest) \<noteq> []"
    using ws(2) w by simp
  have dw: "dropWhile is_space (ws @ rest) = rest"
    using ws(2) rest by (cases rest) (simp_all add: dropWhile_append)
  show ?thesis
    by (simp only: remove_heading_marker_def Let_def t d tw dw) simp
qed

lemma remove_heading_marker_changed:
  assumes "remove_heading_marker line \<noteq> line"
  shows "\<exists>n ws rest. line = replicate (Suc n) hash @ ws @ rest \<and> ws \<noteq> [] \<and>
           (\<forall>c \<in> set ws. is_space c)"
proof -
  let ?h = "takeWhile (\<lambda>c. c = hash) line"
  let ?r = "dropWhile (\<lambda>c. c = hash) line"
  from assms have h: "?h \<noteq> []" and w: "takeWhile is_space ?r \<noteq> []"
    by (auto simp: remove_heading_marker_def Let_def split: if_splits)
  have "?h = replicate (length ?h) hash"
    by (rule replicate_eqI) (auto dest: set_takeWhileD)
  moreover from h obtain n where "length ?h = Suc n" by (cases ?h) auto
  ultimately have hh: "?h = replicate (Suc n) hash" by simp
  have "line = ?h @ takeWhile is_space ?r @ dropWhile is_space ?r" by simp
  with hh have "line = replicate (Suc n) hash @ takeWhile is_space ?r @ dropWhile is_space ?r"
    by simp
  moreover have "\<forall>c \<in> set (takeWhile is_space ?r). is_space c"
    by (auto dest: set_takeWhileD)
  ultimately show ?thesis using w by blast
qed

text \<open>
  Claim C2. For every description, the cleaning function works on the first line only
  (the text before the first line feed). A leading run of \<open>#\<close> followed by white space
  is removed when the line starts with it; a line that does not start that way is kept
  as it is, so \<open>#\<close> characters elsewhere stay. A cleaned line longer than 150 characters
  is cut to its first 147 characters followed by three dots, 150 characters in all; a
  cleaned line of at most 150 characters is returned unchanged. The result never
  exceeds 150 characters.
\<close>

theorem cleanDescriptionForToc_spec:
  "(\<forall>n ws rest.
      takeWhile (\<lambda>c. c \<noteq> newline) d = replicate (Suc n) hash @ ws @ rest \<and> ws \<noteq> [] \<and>
      (\<forall>c \<in> set ws. is_space c) \<and> (rest = [] \<or> \<not> is_space (hd rest)) \<longrightarrow>
      remove_heading_marker (takeWhile (\<lambda>c. c \<noteq> newline) d) = rest) \<and>
   (\<not> (\<exists>n ws rest.
      takeWhile (\<lambda>c. c \<noteq> newline) d = replicate (Suc n) hash @ ws @ rest \<and> ws \<noteq> [] \<and>
      (\<forall>c \<in> set ws. is_space c)) \<longrightarrow>
      remove_heading_marker (takeWhile (\<lambda>c. c \<noteq> newline) d) = takeWhile (\<lambda>c. c \<noteq> newline) d) \<and>
   (150 < length (remove_heading_marker (takeWhile (\<lambda>c. c \<noteq> newline) d)) \<longrightarrow>
      cleanDescriptionForToc d =
        take 147 (remove_heading_marker (takeWhile (\<lambda>c. c \<noteq> newline) d)) @ ''...'' \<and>
      length (cleanDescriptionForToc d) = 150) \<and>
   (length (remove_heading_marker (takeWhile (\<lambda>c. c \<noteq> newline) d)) \<le> 150 \<longrightarrow>
      cleanDescriptionForToc d = remove_heading_marker (takeWhile (\<lambda>c. c \<noteq> newline) d)) \<and>
   length (cleanDescriptionForToc d) \<le> 150"
proof -
  let ?line = "takeWhile (\<lambda>c. c \<noteq> newline) d"
  let ?cleaned = "remove_heading_marker ?line"
  have empty: "remove_heading_marker [] = []"
    by (simp add: remove_heading_marker_def)
  have clean: "cleanDescriptionForToc d =
      (if length ?cleaned > 150 then take 147 ?cleaned @ ''...'' else ?cleaned)"
    by (cases d) (simp_all add: cleanDescriptionForToc_def Let_def hd_split_js empty
        del: split_js.simps)
  have 1: "\<forall>n ws rest. ?line = replicate (Suc n) hash @ ws @ rest \<and> ws \<noteq> [] \<and>
      (\<forall>c \<in> set ws. is_space c) \<and> (rest = [] \<or> \<not> is_space (hd rest)) \<longrightarrow> ?cleaned = rest"
    using remove_heading_marker_match by blast
  have 2: "\<not> (\<exists>n ws rest. ?line = replicate (Suc n) hash @ ws @ rest \<and> ws \<noteq> [] \<and>
      (\<forall>c \<in> set ws. is_space c)) \<longrightarrow> ?cleaned = ?line"
    using remove_heading_marker_changed [of ?line] by blast
  have 3: "150 < length ?cleaned \<longrightarrow>
      cleanDescriptionForToc d = take 147 ?cleaned @ ''...'' \<and> length (cleanDescriptionForToc d) = 150"
    by (simp add: clean)
  have 4: "length ?cleaned \<le> 150 \<longrightarrow> cleanDescriptionForToc d = ?cleaned"
    by (simp add: clean)
  have 5: "length (cleanDescriptionForToc d) \<le> 150"
    by (simp add: clean)
  from 1 2 3 4 5 show ?thesis by (intro conjI)
qed

theorem cleanDescriptionForToc_spec_witness:
  "cleanDescriptionForToc ''# Title with #tag'' = ''Title with #tag'' \<and>
   cleanDescriptionForToc ''see #tag here'' = ''see #tag here'' \<and>
   150 < length (remove_heading_marker (takeWhile (\<lambda>c. c \<noteq> newline) (replicate 200 (CHR ''a'')))) \<and>
   cleanDescriptionForToc (replicate 200 (CHR ''a'')) = replicate 147 (CHR ''a'') @ ''...'' \<and>
   length (cleanDescriptionForToc (replicate 200 (CHR ''a''))) = 150"
proof -
  have a: "takeWhile (\<lambda>c. c \<noteq> newline) ''# Title with #tag'' = replicate (Suc 0) hash @ '' '' @ ''Title with #tag''"
    by (simp add: newline_def hash_def)
  have b: "\<not> (\<exists>n ws rest. takeWhile (\<lambda>c. c \<noteq> newline) ''see #tag here'' = replicate (Suc n) hash @ ws @ rest \<and> ws \<noteq> [] \<and>
      (\<forall>c \<in> set ws. is_space c))"
    by (simp add: newline_def hash_def)
  have c: "remove_heading_marker (takeWhile (\<lambda>c. c \<noteq> newline) (replicate 200 (CHR ''a''))) = replicate 200 (CHR ''a'')"
    by (simp add: newline_def hash_def remove_heading_marker_def)
  have sp: "\<forall>c \<in> set '' ''. is_space c" "\<not> is_space (hd ''Title with #tag'')"
    by (simp_all add: is_space_def)
  have l1: "length ''Title with #tag'' \<le> 150" "length ''see #tag here'' \<le> 150" by simp_all
  note t1 = cleanDescriptionForToc_spec [of "''# Title with #tag''"]
  note t2 = cleanDescriptionForToc_spec [of "''see #tag here''"]
  note t3 = cleanDescriptionForToc_spec [of "replicate 200 (CHR ''a'')"]
  have r1: "remove_heading_marker (takeWhile (\<lambda>c. c \<noteq> newline) ''# Title with #tag'') = ''Title with #tag''"
    using t1 a sp by blast
  have r2: "remove_heading_marker (takeWhile (\<lambda>c. c \<noteq> newline) ''see #tag here'') = ''see #tag here''"
    using t2 b by (simp add: newline_def)
  have "cleanDescriptionForToc ''# Title with #tag'' = ''Title with #tag''"
    using t1 r1 l1 by simp
  moreover have "cleanDescriptionForToc ''see #tag here'' = ''see #tag here''"
    using t2 r2 l1 by (simp add: newline_def)
  moreover have "150 < length (remove_heading_marker (takeWhile (\<lambda>c. c \<noteq> newline) (replicate 200 (CHR ''a''))))"
    unfolding c by simp
  moreover have "cleanDescriptionForToc (replicate 200 (CHR ''a'')) = replicate 147 (CHR ''a'') @ ''...'' \<and>
   length (cleanDescriptionForToc (replicate 200 (CHR ''a''))) = 150"
    using t3 unfolding c by simp
  ultimately show ?thesis by blast
qed

lemma mset_insert_by: "mset (insert_by cmp x xs) = add_mset x (mset xs)"
  by (induction xs) auto

lemma mset_sort_js: "mset (sort_js cmp xs) = mset xs"
  by (induction xs) (auto simp: sort_js_def mset_insert_by)

lemma set_sort_js: "set (sort_js cmp xs) = set xs"
  by (metis mset_sort_js set_mset_mset)


lemma consistent_compare_total:
  "consistent_compare cmp \<Longrightarrow> cmp a b \<le> 0 \<or> cmp b a \<le> 0"
  unfolding consistent_compare_def by (metis not_le order_less_imp_le)

lemma consistent_compare_trans:
  "consistent_compare cmp \<Longrightarrow> cmp a b \<le> 0 \<Longrightarrow> cmp b c \<le> 0 \<Longrightarrow> cmp a c \<le> 0"
  unfolding consistent_compare_def by blast




lemma consistent_compare_on_subset:
  "consistent_compare_on B cmp \<Longrightarrow> A \<subseteq> B \<Longrightarrow> consistent_compare_on A cmp"
  unfolding consistent_compare_on_def by blast

lemma set_insert_by: "set (insert_by cmp x xs) = insert x (set xs)"
  by (induction xs) auto

lemma sorted_wrt_insert_by_on:
  assumes c: "consistent_compare_on (insert x (set xs)) cmp"
    and s: "sorted_wrt (\<lambda>a b. cmp a b \<le> 0) xs"
  shows "sorted_wrt (\<lambda>a b. cmp a b \<le> 0) (insert_by cmp x xs)"
  using c s
proof (induction xs)
  case Nil
  then show ?case by simp
next
  case (Cons y ys)
  have sub: "consistent_compare_on (insert x (set ys)) cmp"
    using Cons.prems(1) by (rule consistent_compare_on_subset) auto
  show ?case
  proof (cases "cmp x y \<le> 0")
    case True
    have "cmp x z \<le> 0" if "z \<in> set ys" for z
    proof -
      from that Cons.prems(2) have "cmp y z \<le> 0" by simp
      with True that Cons.prems(1) show ?thesis
        unfolding consistent_compare_on_def by (meson insertI1 insertI2 list.set_intros)
    qed
    with True Cons.prems(2) show ?thesis by simp
  next
    case False
    then have "0 < cmp x y" by simp
    then have "cmp y x < 0"
      using Cons.prems(1) unfolding consistent_compare_on_def
      by (meson insertI1 insertI2 list.set_intros)
    then have yx: "cmp y x \<le> 0" by simp
    from Cons.IH [OF sub] Cons.prems(2)
    have "sorted_wrt (\<lambda>a b. cmp a b \<le> 0) (insert_by cmp x ys)" by simp
    with False yx Cons.prems(2) show ?thesis by (simp add: set_insert_by)
  qed
qed

lemma sorted_wrt_sort_js_on:
  "consistent_compare_on (set xs) cmp \<Longrightarrow> sorted_wrt (\<lambda>a b. cmp a b \<le> 0) (sort_js cmp xs)"
proof (induction xs)
  case Nil
  then show ?case by (simp add: sort_js_def)
next
  case (Cons x xs)
  have sub: "consistent_compare_on (set xs) cmp"
    using Cons.prems by (rule consistent_compare_on_subset) auto
  have "consistent_compare_on (insert x (set (sort_js cmp xs))) cmp"
    using Cons.prems by (simp add: set_sort_js)
  then have "sorted_wrt (\<lambda>a b. cmp a b \<le> 0) (insert_by cmp x (sort_js cmp xs))"
    using Cons.IH [OF sub] by (rule sorted_wrt_insert_by_on)
  then show ?case by (simp add: sort_js_def)
qed




lemma compare_units_sign: "(compare_units a b < 0) = (0 < compare_units b a)"
  by (induction a b rule: compare_units.induct) simp_all

lemma compare_units_trans:
  "compare_units a b \<le> 0 \<Longrightarrow> compare_units b c \<le> 0 \<Longrightarrow> compare_units a c \<le> 0"
proof (induction a b arbitrary: c rule: compare_units.induct)
  case 1
  then show ?case by simp
next
  case (2 y ys)
  then show ?case by (cases c) simp_all
next
  case (3 x xs)
  then show ?case by simp
next
  case (4 x xs y ys)
  show ?case
  proof (cases c)
    case Nil
    with 4 show ?thesis by (simp split: if_splits)
  next
    case (Cons z zs)
    consider "x < y" | "x = y" "compare_units xs ys \<le> 0"
      using "4.prems"(1) by (auto split: if_splits)
    then show ?thesis
    proof cases
      case 1
      with "4.prems"(2) Cons show ?thesis by (auto split: if_splits)
    next
      case 2
      with "4.prems"(2) Cons "4.IH" [of zs] show ?thesis by (auto split: if_splits)
    qed
  qed
qed

lemma consistent_codeunit_compare: "consistent_compare codeunit_compare"
  unfolding consistent_compare_def codeunit_compare_def
  using compare_units_sign compare_units_trans by blast


lemma example_doc_sel [simp]:
  "title (example_doc t p pos) = t"
  "path (example_doc t p pos) = p"
  "effective_position (example_doc t p pos) = (case pos of None \<Rightarrow> 999 | Some n \<Rightarrow> n)"
  by (simp_all add: example_doc_def effective_position_def)


lemma map_of_map_key:
  "map_of (map (\<lambda>(k, v). (k, f k v)) xs) k = map_option (f k) (map_of xs k)"
  by (induction xs) auto

lemma map_fst_map_key: "map fst (map (\<lambda>(k, v). (k, f k v)) xs) = map fst xs"
  by (induction xs) auto

lemma map_push_alt:
  "map_push k v m =
     map (\<lambda>(k', vs). (k', if k' = k then vs @ [v] else vs))
       (if map_of m k = None then m @ [(k, [])] else m)"
proof -
  have "(\<lambda>(k', vs). if k' = k then (k', vs @ [v]) else (k', vs))
      = (\<lambda>(k', vs). (k', if k' = k then vs @ [v] else vs))"
    by (auto simp: fun_eq_iff)
  then show ?thesis by (simp add: map_push_def Let_def)
qed

lemma keys_map_push:
  "map fst (map_push k v m) = (if k \<in> set (map fst m) then map fst m else map fst m @ [k])"
  by (auto simp: map_push_alt map_of_eq_None_iff split: prod.splits)

lemma map_get_map_push:
  "map_get (map_push k v m) k' = (if k' = k then map_get m k @ [v] else map_get m k')"
proof (cases "map_of m k")
  case None
  then show ?thesis
    by (auto simp: map_get_def map_push_alt map_of_map_key map_add_def split: option.splits)
next
  case (Some vs)
  then show ?thesis
    by (auto simp: map_get_def map_push_alt map_of_map_key split: option.splits)
qed

lemma map_get_Nil: "map_get [] k = []"
  by (simp add: map_get_def)

lemma keys_foldl_map_push:
  "set (map fst (foldl (\<lambda>m d. map_push (f d) d m) m ds)) = set (map fst m) \<union> f ` set ds"
proof (induction ds arbitrary: m)
  case Nil
  then show ?case by simp
next
  case (Cons d ds)
  have "set (map fst (map_push (f d) d m)) = insert (f d) (set (map fst m))"
    by (auto simp: keys_map_push)
  with Cons show ?case by simp
qed

lemma distinct_foldl_map_push:
  "distinct (map fst m) \<Longrightarrow> distinct (map fst (foldl (\<lambda>m d. map_push (f d) d m) m ds))"
proof (induction ds arbitrary: m)
  case Nil
  then show ?case by simp
next
  case (Cons d ds)
  from Cons.prems have "distinct (map fst (map_push (f d) d m))"
    by (simp add: keys_map_push)
  then show ?case using Cons.IH by simp
qed

lemma map_get_foldl_map_push:
  "map_get (foldl (\<lambda>m d. map_push (f d) d m) m ds) k = map_get m k @ filter (\<lambda>d. f d = k) ds"
proof (induction ds arbitrary: m)
  case Nil
  then show ?case by simp
next
  case (Cons d ds)
  show ?case by (simp add: Cons.IH map_get_map_push)
qed

lemma map_of_key_map_get:
  "k \<in> set (map fst m) \<Longrightarrow> map_of m k = Some (map_get m k)"
  by (cases "map_of m k") (auto simp: map_get_def map_of_eq_None_iff)

lemma keys_docsByCategory:
  "set (map fst (docsByCategory docs)) = (\<lambda>d. extractCategoryFromPath (path d)) ` set docs"
  unfolding docsByCategory_def by (simp only: keys_foldl_map_push) simp

lemma distinct_docsByCategory: "distinct (map fst (docsByCategory docs))"
  by (simp add: docsByCategory_def distinct_foldl_map_push)

lemma map_get_docsByCategory:
  "map_get (docsByCategory docs) c = filter (\<lambda>d. extractCategoryFromPath (path d) = c) docs"
  unfolding docsByCategory_def by (simp only: map_get_foldl_map_push map_get_Nil) simp

lemma compare_by_metadata_le_iff:
  "compare_by_metadata h m a b \<le> 0 \<longleftrightarrow>
     (case (m a, m b) of
        (Some x, Some y) \<Rightarrow>
          position x < position y \<or> position x = position y \<and> localeCompare h a b \<le> 0
      | _ \<Rightarrow> localeCompare h a b \<le> 0)"
  by (auto simp: compare_by_metadata_def split: option.splits)

lemma compare_by_metadata_no_positions:
  assumes "\<And>k v. m k = Some v \<Longrightarrow> position v = 999"
  shows "compare_by_metadata h m = localeCompare h"
proof (intro ext)
  fix a b
  show "compare_by_metadata h m a b = localeCompare h a b"
    using assms [of a] assms [of b]
    by (auto simp: compare_by_metadata_def split: option.splits)
qed

lemma consistent_compare_by_metadata_total:
  assumes c: "consistent_compare (localeCompare h)" and t: "\<forall>a \<in> A. m a \<noteq> None"
  shows "consistent_compare_on A (compare_by_metadata h m)"
  unfolding consistent_compare_on_def
proof (intro conjI ballI impI)
  fix a b assume ab: "a \<in> A" "b \<in> A"
  from t ab(1) obtain x where "m a = Some x" by auto
  moreover from t ab(2) obtain y where "m b = Some y" by auto
  ultimately show "(compare_by_metadata h m a b < 0) = (0 < compare_by_metadata h m b a)"
    using c by (auto simp: compare_by_metadata_def consistent_compare_def)
next
  fix a b d assume "a \<in> A" "b \<in> A" "d \<in> A"
  assume le: "compare_by_metadata h m a b \<le> 0 \<and> compare_by_metadata h m b d \<le> 0"
  from t \<open>a \<in> A\<close> obtain x where "m a = Some x" by auto
  moreover from t \<open>b \<in> A\<close> obtain y where "m b = Some y" by auto
  moreover from t \<open>d \<in> A\<close> obtain z where "m d = Some z" by auto
  ultimately show "compare_by_metadata h m a d \<le> 0"
    using le consistent_compare_trans [OF c, of a b d]
    by (auto simp: compare_by_metadata_le_iff)
qed

lemma consistent_compare_by_metadata_none:
  assumes c: "consistent_compare (localeCompare h)" and t: "\<forall>a \<in> A. m a = None"
  shows "consistent_compare_on A (compare_by_metadata h m)"
proof -
  have "compare_by_metadata h m a b = localeCompare h a b" if "a \<in> A" for a b
    using that t by (simp add: compare_by_metadata_def)
  then show ?thesis
    using c unfolding consistent_compare_on_def consistent_compare_def by metis
qed

lemma categoryMetadataMap_cases:
  "(\<exists>sd dd. siteDir = Some sd \<and> docsDir = Some dd \<and> sd \<noteq> [] \<and> dd \<noteq> [] \<and>
      categoryMetadataMap h siteDir docsDir groups =
        map_of (map (\<lambda>(category, ds). (category, getCategoryMetadata h (path (hd ds)) sd dd)) groups))
   \<or> (\<not> (truthy siteDir \<and> truthy docsDir) \<and> categoryMetadataMap h siteDir docsDir groups = Map.empty)"
  by (auto simp: categoryMetadataMap_def truthy_def split: option.splits)

lemma categoryMetadataMap_given:
  assumes "sd \<noteq> []" "dd \<noteq> []" "c \<in> set (map fst groups)"
  shows "categoryMetadataMap h (Some sd) (Some dd) groups c =
     Some (getCategoryMetadata h (path (hd (map_get groups c))) sd dd)"
proof -
  have "categoryMetadataMap h (Some sd) (Some dd) groups c =
      map_option (\<lambda>ds. getCategoryMetadata h (path (hd ds)) sd dd) (map_of groups c)"
    using assms(1,2)
    by (simp add: categoryMetadataMap_def map_of_map_key [where f = "\<lambda>k ds. getCategoryMetadata h (path (hd ds)) sd dd"])
  then show ?thesis using assms(3) by (simp add: map_of_key_map_get)
qed

lemma consistent_categories:
  assumes c: "consistent_compare (localeCompare h)"
  shows "consistent_compare_on (set (map fst groups))
     (compare_by_metadata h (categoryMetadataMap h siteDir docsDir groups))"
  using categoryMetadataMap_cases [of siteDir docsDir h groups]
proof (elim disjE exE conjE)
  fix sd dd
  assume "siteDir = Some sd" "docsDir = Some dd" "sd \<noteq> []" "dd \<noteq> []"
  then have "\<forall>a \<in> set (map fst groups). categoryMetadataMap h siteDir docsDir groups a \<noteq> None"
    using categoryMetadataMap_given [of sd dd _ groups h] by simp
  with c show ?thesis by (rule consistent_compare_by_metadata_total)
next
  assume "categoryMetadataMap h siteDir docsDir groups = Map.empty"
  then have "\<forall>a \<in> set (map fst groups). categoryMetadataMap h siteDir docsDir groups a = None"
    by simp
  with c show ?thesis by (rule consistent_compare_by_metadata_none)
qed

lemma sorted_categories:
  assumes c: "consistent_compare (localeCompare h)"
  shows "sorted_wrt (\<lambda>a b. compare_by_metadata h (categoryMetadataMap h siteDir docsDir groups) a b \<le> 0)
     (sortedCategories h (categoryMetadataMap h siteDir docsDir groups) groups)"
  unfolding sortedCategories_def
  by (rule sorted_wrt_sort_js_on) (rule consistent_categories [OF c])

lemma set_sortedCategories:
  "set (sortedCategories h m (docsByCategory docs)) = (\<lambda>d. extractCategoryFromPath (path d)) ` set docs"
  by (simp only: sortedCategories_def set_sort_js keys_docsByCategory)

lemma distinct_sortedCategories: "distinct (sortedCategories h m (docsByCategory docs))"
proof -
  have "mset (sortedCategories h m (docsByCategory docs)) = mset (map fst (docsByCategory docs))"
    by (simp add: sortedCategories_def mset_sort_js)
  then show ?thesis using distinct_docsByCategory [of docs] by (metis mset_eq_imp_distinct_iff)
qed

lemma categorySections_unfold:
  "categorySections h docs siteDir docsDir incl =
     map (\<lambda>c. category_section h siteDir docsDir incl
                 (categoryMetadataMap h siteDir docsDir (docsByCategory docs)) c
                 (filter (\<lambda>d. extractCategoryFromPath (path d) = c) docs))
       (sortedCategories h (categoryMetadataMap h siteDir docsDir (docsByCategory docs))
          (docsByCategory docs))"
  by (simp add: categorySections_def Let_def map_get_docsByCategory)

lemma categorySections_example:
  "categorySections example_host
     [example_doc ''x'' ''docs/a/cat1/x'' (Some 2), example_doc ''y'' ''docs/a/cat1/y'' (Some 1),
      example_doc ''z'' ''docs/a/cat2/z'' None] (Some ''/site'') (Some ''docs'') True =
   [''## Cat2'' @ [newline, newline] @ ''- [z](https://example.com/docs/a/cat2/z)'',
    ''## Cat1'' @ [newline, newline] @ ''- [y](https://example.com/docs/a/cat1/y)'' @ [newline] @
      ''- [x](https://example.com/docs/a/cat1/x)'']"
  by code_simp

text \<open>
  Claim C1. In links mode the category sections are rendered one for each category of
  the documents, in the order of the sorted category keys. When \<open>localeCompare\<close> is a
  consistent comparator, a category comes before another only if its descriptor position
  is smaller, or the positions are equal (or the descriptors were not looked up) and its
  key does not compare greater. With \<open>siteDir\<close> and \<open>docsDir\<close> given, the descriptor
  of a category is the one found from the path of its first document. For the documents
  \<open>docs/a/cat1/x\<close> (position 2), \<open>docs/a/cat1/y\<close> (position 1) and
  \<open>docs/a/cat2/z\<close> (no position), with descriptor positions 1 for \<open>cat1\<close> and 0 for
  \<open>cat2\<close>, the section of \<open>cat2\<close> comes first, and in the section of \<open>cat1\<close> the
  entry of \<open>y\<close> comes before the entry of \<open>x\<close>.
\<close>

theorem categorySections_order:
  assumes "consistent_compare (localeCompare h)"
  shows
    "categorySections h docs siteDir docsDir incl =
       map (\<lambda>c. category_section h siteDir docsDir incl
                   (categoryMetadataMap h siteDir docsDir (docsByCategory docs)) c
                   (filter (\<lambda>d. extractCategoryFromPath (path d) = c) docs))
         (sortedCategories h (categoryMetadataMap h siteDir docsDir (docsByCategory docs))
            (docsByCategory docs)) \<and>
     distinct (sortedCategories h (categoryMetadataMap h siteDir docsDir (docsByCategory docs))
            (docsByCategory docs)) \<and>
     set (sortedCategories h (categoryMetadataMap h siteDir docsDir (docsByCategory docs))
            (docsByCategory docs)) = (\<lambda>d. extractCategoryFromPath (path d)) ` set docs \<and>
     sorted_wrt
       (\<lambda>a b. case (categoryMetadataMap h siteDir docsDir (docsByCategory docs) a,
                     categoryMetadataMap h siteDir docsDir (docsByCategory docs) b) of
                (Some x, Some y) \<Rightarrow>
                  position x < position y \<or>
                  position x = position y \<and> localeCompare h a b \<le> 0
              | _ \<Rightarrow> localeCompare h a b \<le> 0)
       (sortedCategories h (categoryMetadataMap h siteDir docsDir (docsByCategory docs))
          (docsByCategory docs)) \<and>
     (\<forall>sd dd c. siteDir = Some sd \<and> docsDir = Some dd \<and> sd \<noteq> [] \<and> dd \<noteq> [] \<and>
        c \<in> (\<lambda>d. extractCategoryFromPath (path d)) ` set docs \<longrightarrow>
        categoryMetadataMap h siteDir docsDir (docsByCategory docs) c =
          Some (getCategoryMetadata h
                  (path (hd (filter (\<lambda>d. extractCategoryFromPath (path d) = c) docs))) sd dd)) \<and>
     categorySections example_host
       [example_doc ''x'' ''docs/a/cat1/x'' (Some 2), example_doc ''y'' ''docs/a/cat1/y'' (Some 1),
        example_doc ''z'' ''docs/a/cat2/z'' None] (Some ''/site'') (Some ''docs'') True =
     [''## Cat2'' @ [newline, newline] @ ''- [z](https://example.com/docs/a/cat2/z)'',
      ''## Cat1'' @ [newline, newline] @ ''- [y](https://example.com/docs/a/cat1/y)'' @ [newline] @
        ''- [x](https://example.com/docs/a/cat1/x)'']"
proof -
  let ?M = "categoryMetadataMap h siteDir docsDir (docsByCategory docs)"
  let ?cats = "sortedCategories h ?M (docsByCategory docs)"
  have s: "sorted_wrt (\<lambda>a b. compare_by_metadata h ?M a b \<le> 0) ?cats"
    using assms by (rule sorted_categories)
  have ordered: "sorted_wrt
       (\<lambda>a b. case (?M a, ?M b) of
                (Some x, Some y) \<Rightarrow>
                  position x < position y \<or>
                  position x = position y \<and> localeCompare h a b \<le> 0
              | _ \<Rightarrow> localeCompare h a b \<le> 0) ?cats"
    using s by (simp only: compare_by_metadata_le_iff)
  have looked_up: "?M c = Some (getCategoryMetadata h
                  (path (hd (filter (\<lambda>d. extractCategoryFromPath (path d) = c) docs))) sd dd)"
    if "siteDir = Some sd" "docsDir = Some dd" "sd \<noteq> []" "dd \<noteq> []"
      "c \<in> (\<lambda>d. extractCategoryFromPath (path d)) ` set docs" for sd dd c
  proof -
    from that(5) have "c \<in> set (map fst (docsByCategory docs))"
      by (simp only: keys_docsByCategory)
    with that(3,4) have "categoryMetadataMap h (Some sd) (Some dd) (docsByCategory docs) c =
       Some (getCategoryMetadata h (path (hd (map_get (docsByCategory docs) c))) sd dd)"
      by (rule categoryMetadataMap_given)
    then show ?thesis by (simp only: that(1,2) map_get_docsByCategory)
  qed
  from looked_up have looked_up_all: "\<forall>sd dd c. siteDir = Some sd \<and> docsDir = Some dd \<and> sd \<noteq> [] \<and> dd \<noteq> [] \<and>
        c \<in> (\<lambda>d. extractCategoryFromPath (path d)) ` set docs \<longrightarrow>
        ?M c = Some (getCategoryMetadata h
                  (path (hd (filter (\<lambda>d. extractCategoryFromPath (path d) = c) docs))) sd dd)"
    by blast
  show ?thesis
    by (intro conjI categorySections_unfold distinct_sortedCategories set_sortedCategories
        ordered looked_up_all categorySections_example)
qed

theorem categorySections_order_witness:
  "consistent_compare (localeCompare example_host) \<and>
   sortedCategories example_host
     (categoryMetadataMap example_host (Some ''/site'') (Some ''docs'')
        (docsByCategory [example_doc ''x'' ''docs/a/cat1/x'' (Some 2),
           example_doc ''y'' ''docs/a/cat1/y'' (Some 1), example_doc ''z'' ''docs/a/cat2/z'' None]))
     (docsByCategory [example_doc ''x'' ''docs/a/cat1/x'' (Some 2),
        example_doc ''y'' ''docs/a/cat1/y'' (Some 1), example_doc ''z'' ''docs/a/cat2/z'' None])
     = [''cat2'', ''cat1''] \<and>
   categoryMetadataMap example_host (Some ''/site'') (Some ''docs'')
     (docsByCategory [example_doc ''x'' ''docs/a/cat1/x'' (Some 2),
        example_doc ''y'' ''docs/a/cat1/y'' (Some 1), example_doc ''z'' ''docs/a/cat2/z'' None]) ''cat2''
     = Some \<lparr>position = 0, label = None\<rparr> \<and>
   categoryMetadataMap example_host (Some ''/site'') (Some ''docs'')
     (docsByCategory [example_doc ''x'' ''docs/a/cat1/x'' (Some 2),
        example_doc ''y'' ''docs/a/cat1/y'' (Some 1), example_doc ''z'' ''docs/a/cat2/z'' None]) ''cat1''
     = Some \<lparr>position = 1, label = None\<rparr> \<and>
   getCategoryMetadata example_host ''docs/a/cat1/x'' ''/site'' ''docs'' = \<lparr>position = 1, label = None\<rparr>"
proof -
  let ?docs = "[example_doc ''x'' ''docs/a/cat1/x'' (Some 2),
        example_doc ''y'' ''docs/a/cat1/y'' (Some 1), example_doc ''z'' ''docs/a/cat2/z'' None]"
  have c: "consistent_compare (localeCompare example_host)"
    using consistent_codeunit_compare by (simp add: example_host_def)
  note t = categorySections_order [OF c, of ?docs "Some ''/site''" "Some ''docs''" True]
  have 1: "sortedCategories example_host
     (categoryMetadataMap example_host (Some ''/site'') (Some ''docs'') (docsByCategory ?docs))
     (docsByCategory ?docs) = [''cat2'', ''cat1'']"
    by code_simp
  have 2: "categoryMetadataMap example_host (Some ''/site'') (Some ''docs'')
     (docsByCategory ?docs) ''cat2'' = Some \<lparr>position = 0, label = None\<rparr>"
    by code_simp
  have 3: "categoryMetadataMap example_host (Some ''/site'') (Some ''docs'')
     (docsByCategory ?docs) ''cat1'' = Some \<lparr>position = 1, label = None\<rparr>"
    by code_simp
  have 4: "getCategoryMetadata example_host ''docs/a/cat1/x'' ''/site'' ''docs'' = \<lparr>position = 1, label = None\<rparr>"
    by code_simp
  from t have "distinct (sortedCategories example_host
     (categoryMetadataMap example_host (Some ''/site'') (Some ''docs'') (docsByCategory ?docs))
     (docsByCategory ?docs))" by blast
  with c 1 2 3 4 show ?thesis by blast
qed

end
